theory Spec2Isabelle
  imports Main "HOL-Library.Sublist" "HOL-Library.AList"
begin

section \<open>JavaScript string primitives used by the extension\<close>

text \<open>
  \<^verbatim>\<open>s.split("/")\<close>: the pieces between the slashes. The result is never empty:
  the empty string splits into one empty piece, and a leading slash gives a leading
  empty piece.
\<close>

fun splitSlash :: "string \<Rightarrow> string list" where
  "splitSlash [] = [[]]"
| "splitSlash (c # cs) =
     (if c = CHR ''/'' then [] # splitSlash cs
      else (case splitSlash cs of [] \<Rightarrow> [[c]] | s # ss \<Rightarrow> (c # s) # ss))"

text \<open>\<^verbatim>\<open>xs.join('/')\<close>: the empty array joins to the empty string.\<close>

fun joinSlash :: "string list \<Rightarrow> string" where
  "joinSlash [] = []"
| "joinSlash [s] = s"
| "joinSlash (s # t # ss) = s @ CHR ''/'' # joinSlash (t # ss)"

text \<open>
  \<^verbatim>\<open>s.indexOf(pat)\<close>, with \<open>None\<close> for \<^verbatim>\<open>-1\<close>: the position of the first
  occurrence of \<open>pat\<close> in \<open>s\<close>.
\<close>

fun indexOf :: "string \<Rightarrow> string \<Rightarrow> nat option" where
  "indexOf [] pat = (if pat = [] then Some 0 else None)"
| "indexOf (c # cs) pat =
     (if prefix pat (c # cs) then Some 0 else map_option Suc (indexOf cs pat))"

text \<open>
  The replacement text of \<^verbatim>\<open>String.prototype.replace\<close> for a string pattern
  (ECMAScript GetSubstitution with no captures): \<^verbatim>\<open>$$\<close> is a dollar sign,
  \<^verbatim>\<open>$&\<close> the matched text, \<^verbatim>\<open>$`\<close> the text before the match, \<^verbatim>\<open>$'\<close> the text
  after it; every other character stands for itself. The arguments are the matched
  text, the text before it, the text after it, and the template.
\<close>

fun getSubstitution :: "string \<Rightarrow> string \<Rightarrow> string \<Rightarrow> string \<Rightarrow> string" where
  "getSubstitution m b a (c # d # r) =
     (if c = CHR ''$'' \<and> d = CHR ''$'' then CHR ''$'' # getSubstitution m b a r
      else if c = CHR ''$'' \<and> d = CHR ''&'' then m @ getSubstitution m b a r
      else if c = CHR ''$'' \<and> d = CHR 0x60 then b @ getSubstitution m b a r
      else if c = CHR ''$'' \<and> d = CHR 0x27 then a @ getSubstitution m b a r
      else c # getSubstitution m b a (d # r))"
| "getSubstitution m b a r = r"

text \<open>
  \<^verbatim>\<open>s.replace(pat, rep)\<close> with a string pattern: only the first occurrence is
  replaced, and \<open>s\<close> is returned as it is when \<open>pat\<close> does not occur.
\<close>

definition replace :: "string \<Rightarrow> string \<Rightarrow> string \<Rightarrow> string" where
  "replace s pat rep =
     (case indexOf s pat of
        None \<Rightarrow> s
      | Some i \<Rightarrow>
          take i s
          @ getSubstitution pat (take i s) (drop (i + length pat) s) rep
          @ drop (i + length pat) s)"


section \<open>The prefix trie of \<^verbatim>\<open>clangd-context.ts\<close>\<close>

text \<open>
  \<^verbatim>\<open>class trieNode { next: Map<string, trieNode>; value: string | undefined }\<close>.
  A JavaScript \<^verbatim>\<open>Map\<close> keeps its keys in insertion order: an association list,
  read with \<open>map_of\<close> (\<^verbatim>\<open>has\<close>, \<^verbatim>\<open>get\<close>).
\<close>

datatype trieNode = TrieNode (node_next: "(string \<times> trieNode) list") (node_value: "string option")

text \<open>\<^verbatim>\<open>new trieNode(undefined)\<close>\<close>

definition newTrieNode :: trieNode where
  "newTrieNode = TrieNode [] None"

text \<open>
  The inner loop of \<^verbatim>\<open>updateCompletionPrefixMap\<close> (lines 241 to 249): from
  \<open>node\<close>, each component creates the child when it is missing and descends into it;
  the node reached last gets the value. The source mutates the nodes through
  references; here the updated child is put back under its key.
\<close>

fun insertPath :: "string list \<Rightarrow> string \<Rightarrow> trieNode \<Rightarrow> trieNode" where
  "insertPath [] replacePath node = TrieNode (node_next node) (Some replacePath)"
| "insertPath (component # rest) replacePath node =
     (case map_of (node_next node) component of
        None \<Rightarrow>
          TrieNode (node_next node @ [(component, insertPath rest replacePath newTrieNode)])
            (node_value node)
      | Some child \<Rightarrow>
          TrieNode (AList.update component (insertPath rest replacePath child) (node_next node))
            (node_value node))"

text \<open>
  The outer loop (\<^verbatim>\<open>for (const key in completionPrefixMap)\<close>), over the entries
  of the parsed document in enumeration order.
\<close>

fun insertEntries :: "(string \<times> string) list \<Rightarrow> trieNode \<Rightarrow> trieNode" where
  "insertEntries [] node = node"
| "insertEntries ((key, replacePath) # entries) node =
     insertEntries entries (insertPath (splitSlash key) replacePath node)"

text \<open>
  The loop of \<^verbatim>\<open>getPrefixPathAndReplacePathWithPath\<close> (lines 257 to 262): a
  component that the current node has as a child is pushed and followed; a component
  that it does not have is passed over, and the loop goes on with the next one.
\<close>

fun walk :: "string list \<Rightarrow> trieNode \<Rightarrow> string list \<Rightarrow> trieNode \<times> string list" where
  "walk [] node prefixPathComponentArray = (node, prefixPathComponentArray)"
| "walk (component # rest) node prefixPathComponentArray =
     (case map_of (node_next node) component of
        Some child \<Rightarrow> walk rest child (prefixPathComponentArray @ [component])
      | None \<Rightarrow> walk rest node prefixPathComponentArray)"

section \<open>\<^verbatim>\<open>ClangdContext\<close>: the mapping document and the path lookups\<close>

text \<open>
  What the code reads from outside: the disk (\<^verbatim>\<open>existsSync\<close>,
  \<^verbatim>\<open>realpathSync\<close>, \<^verbatim>\<open>readFileSync\<close>, \<^verbatim>\<open>vscode.workspace.fs.stat\<close>) and
  \<^verbatim>\<open>JSON.parse\<close>. A call that throws returns \<open>None\<close>. The mapping document is
  an object from strings to strings, so a parsed document is the list of its entries.
\<close>

record env =
  existsSync :: "string \<Rightarrow> bool"
  realpathSync :: "string \<Rightarrow> string option"
  readFileSync :: "string \<Rightarrow> string option"
  JSON_parse :: "string \<Rightarrow> (string \<times> string) list option"
  stat_size :: "string \<Rightarrow> int option"

datatype error = RealpathError | ReadError | SyntaxError | StatError | UriError

record ClangdContext =
  completionPrefixMap :: trieNode
  completionPrefixMapPath :: string

text \<open>
  \<^verbatim>\<open>updateCompletionPrefixMap\<close> (lines 235 to 252). The result is the exception
  thrown, if any, and the context as the call leaves it.
\<close>

definition updateCompletionPrefixMap :: "env \<Rightarrow> ClangdContext \<Rightarrow> error option \<times> ClangdContext" where
  "updateCompletionPrefixMap e ctx =
     (let path = completionPrefixMapPath ctx @ ''/completion_prefix_map.json'' in
      if existsSync e path then
        (case readFileSync e path of
           None \<Rightarrow> (Some ReadError, ctx)
         | Some text \<Rightarrow>
             (case JSON_parse e text of
                None \<Rightarrow> (Some SyntaxError, ctx)
              | Some doc \<Rightarrow>
                  (None, ctx\<lparr>completionPrefixMap := insertEntries doc (completionPrefixMap ctx)\<rparr>)))
      else (None, ctx))"

text \<open>
  \<^verbatim>\<open>getPrefixPathAndReplacePathWithPath\<close> (lines 253 to 269). The test
  \<^verbatim>\<open>if (node.value)\<close> is JavaScript truthiness: an empty string counts as no value.
\<close>

definition getPrefixPathAndReplacePathWithPath :: "ClangdContext \<Rightarrow> string \<Rightarrow> (string \<times> string) option" where
  "getPrefixPathAndReplacePathWithPath ctx filePath =
     (case walk (splitSlash filePath) (completionPrefixMap ctx) [] of
        (node, prefixPathComponentArray) \<Rightarrow>
          (case node_value node of
             Some v \<Rightarrow> if v \<noteq> [] then Some (joinSlash prefixPathComponentArray, v) else None
           | None \<Rightarrow> None))"

text \<open>
  A \<^verbatim>\<open>vscode.Uri\<close>: its five components. The items of a response carry their
  file as a \<^verbatim>\<open>Uri\<close>, and the middleware reads and replaces its path.
\<close>

record Uri =
  uri_scheme :: string
  uri_authority :: string
  uri_path :: string
  uri_query :: string
  uri_fragment :: string

text \<open>
  What the constructor of \<^verbatim>\<open>Uri\<close> does to a path: for the schemes
  \<^verbatim>\<open>https\<close>, \<^verbatim>\<open>http\<close> and \<^verbatim>\<open>file\<close> an empty path becomes a slash, and a
  path that does not begin with a slash gets one in front.
\<close>

definition referenceResolution :: "string \<Rightarrow> string \<Rightarrow> string" where
  "referenceResolution scheme p =
     (if scheme = ''https'' \<or> scheme = ''http'' \<or> scheme = ''file'' then
        (case p of
           [] \<Rightarrow> ''/''
         | c # cs \<Rightarrow> if c = CHR ''/'' then p else CHR ''/'' # p)
      else p)"

text \<open>
  The check of the constructor on the path (the scheme of an item is the one it came
  with, which passed this check before): with an authority a non-empty path begins
  with a slash, without one it does not begin with two slashes.
\<close>

definition validateUri :: "Uri \<Rightarrow> bool" where
  "validateUri u =
     (if uri_path u = [] then True
      else if uri_authority u = [] then \<not> prefix ''//'' (uri_path u)
      else prefix ''/'' (uri_path u))"

text \<open>
  \<^verbatim>\<open>uri.with({ path: p })\<close>: the same object when nothing changes; else a new
  \<^verbatim>\<open>Uri\<close>, whose constructor throws a \<^verbatim>\<open>UriError\<close> when the check fails.
\<close>

definition uriWith :: "Uri \<Rightarrow> string \<Rightarrow> error + Uri" where
  "uriWith u p =
     (if p = uri_path u then Inr u
      else
        (let u' = u\<lparr>uri_path := referenceResolution (uri_scheme u) p\<rparr> in
         if validateUri u' then Inr u' else Inl UriError))"

text \<open>
  The path rewriting that both middleware functions carry inline (lines 149 to 157 and
  171 to 179), from the \<^verbatim>\<open>Uri\<close> of the item to the \<^verbatim>\<open>Uri\<close> it ends with, or
  the exception of \<^verbatim>\<open>realpathSync\<close> or of \<^verbatim>\<open>Uri.with\<close>, which nothing catches.
\<close>

definition resolve :: "env \<Rightarrow> ClangdContext \<Rightarrow> Uri \<Rightarrow> error + Uri" where
  "resolve e ctx uri =
     (case realpathSync e (uri_path uri) of
        None \<Rightarrow> Inl RealpathError
      | Some filePath \<Rightarrow>
          (case getPrefixPathAndReplacePathWithPath ctx filePath of
             None \<Rightarrow> Inr uri
           | Some (prefixPath, replacePath) \<Rightarrow>
               (let resolvePath = replace filePath prefixPath replacePath in
                if existsSync e resolvePath then uriWith uri resolvePath else Inr uri)))"

section \<open>The middleware: definition results and document links\<close>

text \<open>
  A definition result is \<^verbatim>\<open>undefined\<close>, one location, or an array of
  \<^verbatim>\<open>Location\<close> or \<^verbatim>\<open>LocationLink\<close> items. An item is its \<^verbatim>\<open>Uri\<close> and the
  rest of it (ranges), which the middleware leaves alone.
\<close>

datatype definitionItem = Location Uri nat | LocationLink Uri nat

datatype definitionResult = NoDefinition | OneDefinition definitionItem | Definitions "definitionItem list"

text \<open>
  \<^verbatim>\<open>provideDefinition\<close> (lines 142 to 165): for a non-empty array whose first
  item is a \<^verbatim>\<open>Location\<close>, that item is rewritten and \<^verbatim>\<open>return item\<close> returns
  it alone; every other result is returned as it came.
\<close>

definition provideDefinition :: "env \<Rightarrow> ClangdContext \<Rightarrow> definitionResult \<Rightarrow> error + definitionResult" where
  "provideDefinition e ctx result =
     (case result of
        Definitions (Location uri rng # rest) \<Rightarrow>
          (case resolve e ctx uri of
             Inl err \<Rightarrow> Inl err
           | Inr uri' \<Rightarrow> Inr (OneDefinition (Location uri' rng)))
      | _ \<Rightarrow> Inr result)"

text \<open>A document link: its range and its target, if it has one.\<close>

datatype documentLink = DocumentLink nat "Uri option"

text \<open>
  The \<^verbatim>\<open>result.map\<close> of \<^verbatim>\<open>provideDocumentLinks\<close> (lines 169 to 182); an
  exception in any item ends the whole call.
\<close>

fun mapLinks :: "env \<Rightarrow> ClangdContext \<Rightarrow> documentLink list \<Rightarrow> error + documentLink list" where
  "mapLinks e ctx [] = Inr []"
| "mapLinks e ctx (DocumentLink rng target # items) =
     (case target of
        None \<Rightarrow>
          (case mapLinks e ctx items of
             Inl err \<Rightarrow> Inl err
           | Inr items' \<Rightarrow> Inr (DocumentLink rng None # items'))
      | Some uri \<Rightarrow>
          (case resolve e ctx uri of
             Inl err \<Rightarrow> Inl err
           | Inr uri' \<Rightarrow>
               (case mapLinks e ctx items of
                  Inl err \<Rightarrow> Inl err
                | Inr items' \<Rightarrow> Inr (DocumentLink rng (Some uri') # items'))))"

definition provideDocumentLinks :: "env \<Rightarrow> ClangdContext \<Rightarrow> documentLink list option \<Rightarrow> error + documentLink list option" where
  "provideDocumentLinks e ctx result =
     (case result of
        None \<Rightarrow> Inr None
      | Some items \<Rightarrow>
          if items \<noteq> [] then
            (case mapLinks e ctx items of Inl err \<Rightarrow> Inl err | Inr items' \<Rightarrow> Inr (Some items'))
          else Inr result)"

section \<open>\<^verbatim>\<open>CustomFileWatcher\<close>: the debounced reload\<close>

datatype kind = Changed | Created

text \<open>
  What the controller does that can be seen from outside, kept in a trace: a timeout
  that fires (its time and the URI its callback holds), the \<^verbatim>\<open>switch\<close> on the
  policy being reached, and a call of \<^verbatim>\<open>updateCompletionPrefixMap\<close>.
\<close>

datatype action = TimerFired nat string | PolicyDispatch string | ReloadCalled

text \<open>
  The fields of the \<^verbatim>\<open>CustomFileWatcher\<close> object (\<open>context\<close> as \<open>clangdContext\<close>, \<open>fileWatcher\<close>,
  \<open>debounceTimer\<close>) together with the host's side of them: the file system watchers
  that are not disposed (handle, watched path, the kinds of event a listener is
  registered for), the timeouts that are armed (handle, time due in ms, the URI of the
  callback), the callbacks suspended at their size check (the URI of each), the clock
  in ms, and the next unused handle.
\<close>

record state =
  clangdContext :: ClangdContext
  fileWatcher :: "nat option"
  debounceTimer :: "nat option"
  watchers :: "(nat \<times> string \<times> kind list) list"
  timers :: "(nat \<times> nat \<times> string) list"
  awaiting :: "string list"
  clock :: nat
  fresh :: nat
  trace :: "action list"

definition mappingPath :: "ClangdContext \<Rightarrow> string" where
  "mappingPath ctx = completionPrefixMapPath ctx @ ''/completion_prefix_map.json''"

text \<open>\<^verbatim>\<open>fileWatcher.dispose()\<close> and \<^verbatim>\<open>clearTimeout\<close>: the handle is dropped.\<close>

definition dispose :: "nat \<Rightarrow> (nat \<times> 'a) list \<Rightarrow> (nat \<times> 'a) list" where
  "dispose h xs = filter (\<lambda>x. fst x \<noteq> h) xs"

text \<open>
  \<^verbatim>\<open>createFileSystemWatcher\<close> (lines 40 to 52). The field \<open>fileWatcher\<close> keeps the
  disposed watcher when no new one is created.
\<close>

definition createFileSystemWatcher :: "env \<Rightarrow> state \<Rightarrow> state" where
  "createFileSystemWatcher e s =
     (let s1 = (case fileWatcher s of
                  Some w \<Rightarrow> s\<lparr>watchers := dispose w (watchers s)\<rparr>
                | None \<Rightarrow> s);
          completionPrefixMapPath = mappingPath (clangdContext s1)
      in if existsSync e completionPrefixMapPath then
           s1\<lparr>fileWatcher := Some (fresh s1),
              watchers := watchers s1 @ [(fresh s1, completionPrefixMapPath, [Changed, Created])],
              fresh := Suc (fresh s1)\<rparr>
         else s1)"

text \<open>\<^verbatim>\<open>debouncedHandleConfigFilesChanged\<close> (lines 54 to 63).\<close>

definition debouncedHandleConfigFilesChanged :: "string \<Rightarrow> state \<Rightarrow> state" where
  "debouncedHandleConfigFilesChanged uri s =
     (let s1 = (case debounceTimer s of
                  Some t \<Rightarrow> s\<lparr>timers := dispose t (timers s)\<rparr>
                | None \<Rightarrow> s)
      in s1\<lparr>debounceTimer := Some (fresh s1),
            timers := timers s1 @ [(fresh s1, clock s1 + 2000, uri)],
            fresh := Suc (fresh s1)\<rparr>)"

text \<open>
  \<^verbatim>\<open>handleConfigFilesChanged\<close> (lines 65 to 84), with the policy
  \<^verbatim>\<open>config.get('onConfigChanged')\<close> as an argument. The result is the exception
  that ends the call, if any, and the state it leaves.
\<close>

definition handleConfigFilesChanged :: "env \<Rightarrow> string \<Rightarrow> string \<Rightarrow> state \<Rightarrow> error option \<times> state" where
  "handleConfigFilesChanged e onConfigChanged uri s =
     (case stat_size e uri of
        None \<Rightarrow> (Some StatError, s)
      | Some sz \<Rightarrow>
          if sz \<le> 0 then (None, s)
          else
            (let s1 = s\<lparr>trace := trace s @ [PolicyDispatch onConfigChanged]\<rparr> in
             if onConfigChanged = ''restart'' then (None, s1)
             else if onConfigChanged = ''ignore'' then (None, s1)
             else
               (case updateCompletionPrefixMap e (clangdContext s1) of
                  (err, ctx) \<Rightarrow> (err, s1\<lparr>clangdContext := ctx, trace := trace s1 @ [ReloadCalled]\<rparr>))))"

text \<open>
  The callback given to \<^verbatim>\<open>setTimeout\<close> (lines 59 to 62) is an \<^verbatim>\<open>async\<close>
  function. When the timeout fires it runs up to \<^verbatim>\<open>await stat(uri)\<close> in the
  handler and is suspended there; other events are served until the size arrives.
  \<open>timerCallback\<close> is the callback from that point on:
  \<^verbatim>\<open>this.debounceTimer = undefined\<close> runs only when the handler returns.
\<close>

definition timerCallback :: "env \<Rightarrow> string \<Rightarrow> string \<Rightarrow> state \<Rightarrow> state" where
  "timerCallback e onConfigChanged uri s =
     (case handleConfigFilesChanged e onConfigChanged uri s of
        (None, s') \<Rightarrow> s'\<lparr>debounceTimer := None\<rparr>
      | (Some err, s') \<Rightarrow> s')"

text \<open>
  The event loop. Timeouts that are due fire in the order they were armed, which is
  the order they come due, since all have the same delay. A timeout that fires leaves
  its callback suspended at the size check (\<open>awaiting\<close>, oldest first).
\<close>

fun fireAll :: "(nat \<times> nat \<times> string) list \<Rightarrow> state \<Rightarrow> state" where
  "fireAll [] s = s"
| "fireAll ((h, due, uri) # ts) s =
     fireAll ts
       (s\<lparr>timers := dispose h (timers s), clock := due,
          trace := trace s @ [TimerFired due uri], awaiting := awaiting s @ [uri]\<rparr>)"

definition elapse :: "nat \<Rightarrow> state \<Rightarrow> state" where
  "elapse d s =
     (fireAll (filter (\<lambda>(h, due, uri). due \<le> clock s + d) (timers s)) s)
     \<lparr>clock := clock s + d\<rparr>"

text \<open>The size arrives for the oldest suspended callback, which runs to its end.\<close>

definition statResolved :: "env \<Rightarrow> string \<Rightarrow> state \<Rightarrow> state" where
  "statResolved e onConfigChanged s =
     (case awaiting s of
        [] \<Rightarrow> s
      | uri # rest \<Rightarrow> timerCallback e onConfigChanged uri (s\<lparr>awaiting := rest\<rparr>))"

text \<open>
  A file system event reaches \<^verbatim>\<open>debouncedHandleConfigFilesChanged\<close> once for
  every live watcher of that path with a listener for that kind of event.
\<close>

definition fileSystemNotification :: "kind \<Rightarrow> string \<Rightarrow> state \<Rightarrow> state" where
  "fileSystemNotification k uri s =
     fold (\<lambda>w. debouncedHandleConfigFilesChanged uri)
       (filter (\<lambda>(h, path, kinds). path = uri \<and> k \<in> set kinds) (watchers s)) s"

text \<open>The events of the loop; the disk is a function of the time.\<close>

datatype event =
  WorkspaceFoldersChanged | FileSystemNotification kind string | Elapse nat | StatResolved

fun step :: "(nat \<Rightarrow> env) \<Rightarrow> string \<Rightarrow> event \<Rightarrow> state \<Rightarrow> state" where
  "step disk onConfigChanged WorkspaceFoldersChanged s = createFileSystemWatcher (disk (clock s)) s"
| "step disk onConfigChanged (FileSystemNotification k uri) s = fileSystemNotification k uri s"
| "step disk onConfigChanged (Elapse d) s = elapse d s"
| "step disk onConfigChanged StatResolved s = statResolved (disk (clock s)) onConfigChanged s"

fun run :: "(nat \<Rightarrow> env) \<Rightarrow> string \<Rightarrow> event list \<Rightarrow> state \<Rightarrow> state" where
  "run disk onConfigChanged [] s = s"
| "run disk onConfigChanged (ev # evs) s = run disk onConfigChanged evs (step disk onConfigChanged ev s)"

text \<open>The constructor (lines 34 to 38), at time 0.\<close>

definition startup :: "(nat \<Rightarrow> env) \<Rightarrow> ClangdContext \<Rightarrow> state" where
  "startup disk ctx =
     createFileSystemWatcher (disk 0)
       \<lparr>clangdContext = ctx, fileWatcher = None, debounceTimer = None, watchers = [],
        timers = [], awaiting = [], clock = 0, fresh = 0, trace = []\<rparr>"

text \<open>
  A burst of notifications that reach the handler, with no size check completing in
  between: each arrives \<open>gap\<close> ms after the one before it (the first one \<open>gap\<close> ms
  after the starting state).
\<close>

fun burst :: "(nat \<times> string) list \<Rightarrow> state \<Rightarrow> state" where
  "burst [] s = s"
| "burst ((gap, uri) # ns) s = burst ns (debouncedHandleConfigFilesChanged uri (elapse gap s))"

section \<open>Notions used in the proofs\<close>

text \<open>
  The node at the end of a chain of children, and the value it carries: the trie seen
  as a map from component lists to values.
\<close>

fun nodeAt :: "trieNode \<Rightarrow> string list \<Rightarrow> trieNode option" where
  "nodeAt node [] = Some node"
| "nodeAt node (component # rest) =
     (case map_of (node_next node) component of
        None \<Rightarrow> None
      | Some child \<Rightarrow> nodeAt child rest)"

definition valueAt :: "trieNode \<Rightarrow> string list \<Rightarrow> string option" where
  "valueAt node ks = (case nodeAt node ks of None \<Rightarrow> None | Some n \<Rightarrow> node_value n)"

definition hasPath :: "trieNode \<Rightarrow> string list \<Rightarrow> bool" where
  "hasPath t ks = (nodeAt t ks \<noteq> None)"

text \<open>What a trace says: the timeouts that fired, and how often the reload was called.\<close>

fun timerFirings :: "action list \<Rightarrow> (nat \<times> string) list" where
  "timerFirings [] = []"
| "timerFirings (TimerFired t uri # as) = (t, uri) # timerFirings as"
| "timerFirings (a # as) = timerFirings as"

fun reloadCalls :: "action list \<Rightarrow> nat" where
  "reloadCalls [] = 0"
| "reloadCalls (ReloadCalled # as) = Suc (reloadCalls as)"
| "reloadCalls (a # as) = reloadCalls as"

text \<open>
  At most one watcher is live, and it is the one the field \<open>fileWatcher\<close> holds;
  \<open>sameWatch\<close> relates two states with the same watchers and the same storage path.
\<close>

definition oneWatcher :: "state \<Rightarrow> bool" where
  "oneWatcher s = (watchers s = [] \<or> (\<exists>h p ks. watchers s = [(h, p, ks)] \<and> fileWatcher s = Some h))"

definition sameWatch :: "state \<Rightarrow> state \<Rightarrow> bool" where
  "sameWatch s s' = (watchers s' = watchers s \<and> fileWatcher s' = fileWatcher s
     \<and> completionPrefixMapPath (clangdContext s') = completionPrefixMapPath (clangdContext s))"

text \<open>
  Disks for the examples: the files with their sizes, the symbolic links with their
  targets, and the text of the mapping file with what \<^verbatim>\<open>JSON.parse\<close> makes of it
  (\<open>None\<close> when it throws).
\<close>

definition sampleDisk :: "(string \<times> int) list \<Rightarrow> (string \<times> string) list \<Rightarrow> string \<Rightarrow> (string \<times> string) list option \<Rightarrow> env" where
  "sampleDisk files links content doc =
     \<lparr>existsSync = (\<lambda>p. p \<in> set (map fst files @ map fst links)),
      realpathSync = (\<lambda>p. case map_of links p of
                              Some q \<Rightarrow> Some q
                            | None \<Rightarrow> if p \<in> set (map fst files) then Some p else None),
      readFileSync = (\<lambda>p. if p \<in> set (map fst files) then Some content else None),
      JSON_parse = (\<lambda>t. if t = content then doc else None),
      stat_size = map_of files\<rparr>"

definition fileUri :: "string \<Rightarrow> Uri" where
  "fileUri p = \<lparr>uri_scheme = ''file'', uri_authority = [], uri_path = p, uri_query = [], uri_fragment = []\<rparr>"

definition emptyContext :: ClangdContext where
  "emptyContext = \<lparr>completionPrefixMap = newTrieNode, completionPrefixMapPath = ''/store''\<rparr>"

definition sandboxContext :: ClangdContext where
  "sandboxContext =
     \<lparr>completionPrefixMap = insertEntries [(''/sandbox/src'', ''/home/dev/project'')] newTrieNode,
      completionPrefixMapPath = ''/store''\<rparr>"

definition idleState :: state where
  "idleState =
     \<lparr>clangdContext = emptyContext, fileWatcher = None, debounceTimer = None, watchers = [],
      timers = [], awaiting = [], clock = 0, fresh = 0, trace = []\<rparr>"

section \<open>Splitting and joining\<close>

lemma splitSlash_not_Nil: "splitSlash s \<noteq> []"
  by (induction s) (auto split: list.splits)

lemma joinSlash_Cons: "ss \<noteq> [] \<Longrightarrow> joinSlash (s # ss) = s @ CHR ''/'' # joinSlash ss"
  by (cases ss) auto

lemma joinSlash_splitSlash: "joinSlash (splitSlash s) = s"
proof (induction s)
  case Nil
  show ?case by simp
next
  case (Cons c cs)
  obtain p ps where sp: "splitSlash cs = p # ps"
    using splitSlash_not_Nil by (cases "splitSlash cs") auto
  show ?case
  proof (cases "c = CHR ''/''")
    case True
    then show ?thesis using Cons sp by simp
  next
    case False
    then show ?thesis using Cons sp by (cases ps) auto
  qed
qed

lemma splitSlash_no_slash: "k \<in> set (splitSlash s) \<Longrightarrow> CHR ''/'' \<notin> set k"
proof (induction s arbitrary: k)
  case Nil
  then show ?case by simp
next
  case (Cons c cs)
  obtain p ps where sp: "splitSlash cs = p # ps"
    using splitSlash_not_Nil by (cases "splitSlash cs") auto
  from Cons sp show ?case by (auto split: if_splits)
qed

lemma splitSlash_plain: "CHR ''/'' \<notin> set k \<Longrightarrow> splitSlash k = [k]"
  by (induction k) auto

lemma splitSlash_append_slash:
  "CHR ''/'' \<notin> set k \<Longrightarrow> splitSlash (k @ CHR ''/'' # r) = k # splitSlash r"
  by (induction k) auto

lemma splitSlash_joinSlash:
  "ks \<noteq> [] \<Longrightarrow> \<forall>k\<in>set ks. CHR ''/'' \<notin> set k \<Longrightarrow> splitSlash (joinSlash ks) = ks"
proof (induction ks rule: joinSlash.induct)
  case 1
  then show ?case by simp
next
  case (2 s)
  then show ?case by (simp add: splitSlash_plain)
next
  case (3 s t ss)
  then show ?case by (simp add: splitSlash_append_slash)
qed

lemma splitSlash_inj: "splitSlash a = splitSlash b \<Longrightarrow> a = b"
  by (metis joinSlash_splitSlash)

section \<open>The trie as a map\<close>

lemma nodeAt_append:
  "nodeAt t (ks @ ls) = (case nodeAt t ks of None \<Rightarrow> None | Some n \<Rightarrow> nodeAt n ls)"
  by (induction ks arbitrary: t) (auto split: option.splits)

lemma walk_follow:
  "nodeAt t ks = Some n \<Longrightarrow> walk (ks @ rest) t acc = walk rest n (acc @ ks)"
  by (induction ks arbitrary: t acc) (auto split: option.splits)

lemma walk_reaches:
  "walk cs t acc = (n, acc') \<Longrightarrow> \<exists>ks. acc' = acc @ ks \<and> nodeAt t ks = Some n \<and> set ks \<subseteq> set cs"
proof (induction cs arbitrary: t acc)
  case Nil
  then show ?case by auto
next
  case (Cons c cs)
  show ?case
  proof (cases "map_of (node_next t) c")
    case None
    with Cons.prems have "walk cs t acc = (n, acc')" by simp
    from Cons.IH[OF this] show ?thesis by auto
  next
    case (Some child)
    with Cons.prems have "walk cs child (acc @ [c]) = (n, acc')" by simp
    from Cons.IH[OF this] obtain ks where
      ks: "acc' = (acc @ [c]) @ ks" "nodeAt child ks = Some n" "set ks \<subseteq> set cs" by auto
    show ?thesis
      by (rule exI[of _ "c # ks"]) (use ks Some in auto)
  qed
qed

lemma map_of_snoc:
  "map_of (xs @ [(k, v)]) k' =
     (case map_of xs k' of Some y \<Rightarrow> Some y | None \<Rightarrow> if k' = k then Some v else None)"
  by (induction xs) auto

lemma valueAt_Nil [simp]: "valueAt t [] = node_value t"
  by (simp add: valueAt_def)

lemma valueAt_Cons: "valueAt t (c # cs) = (case map_of (node_next t) c of None \<Rightarrow> None | Some child \<Rightarrow> valueAt child cs)"
  by (simp add: valueAt_def split: option.splits)

lemma valueAt_new [simp]: "valueAt newTrieNode ks = None"
  by (cases ks) (simp_all add: valueAt_Cons newTrieNode_def)

lemma valueAt_insertPath:
  "valueAt (insertPath ks v t) ls = (if ls = ks then Some v else valueAt t ls)"
proof (induction ks arbitrary: t ls)
  case Nil
  then show ?case by (cases ls) (simp_all add: valueAt_Cons)
next
  case (Cons c cs)
  show ?case
  proof (cases ls)
    case Nil
    then show ?thesis by (simp split: option.splits)
  next
    case ls: (Cons l ls')
    show ?thesis
    proof (cases "map_of (node_next t) c")
      case None
      then show ?thesis
        using ls
        by (simp add: Cons.IH valueAt_Cons map_of_snoc del: map_of_append split: option.splits)
    next
      case (Some child)
      then show ?thesis
        using ls
        by (simp add: Cons.IH valueAt_Cons update_conv' split: option.splits)
    qed
  qed
qed

lemma hasPath_Nil [simp]: "hasPath t []"
  by (simp add: hasPath_def)

lemma hasPath_Cons: "hasPath t (c # cs) = (case map_of (node_next t) c of None \<Rightarrow> False | Some child \<Rightarrow> hasPath child cs)"
  by (simp add: hasPath_def split: option.splits)

lemma hasPath_insertPath_self: "hasPath (insertPath ks v t) ks"
proof (induction ks arbitrary: t)
  case Nil
  show ?case by simp
next
  case (Cons c cs)
  show ?case
  proof (cases "map_of (node_next t) c")
    case None
    then show ?thesis using Cons.IH[of newTrieNode]
      by (simp add: hasPath_Cons map_of_snoc del: map_of_append)
  next
    case (Some child)
    then show ?thesis using Cons.IH[of child]
      by (simp add: hasPath_Cons update_conv')
  qed
qed

lemma hasPath_insertPath_keeps: "hasPath t ls \<Longrightarrow> hasPath (insertPath ks v t) ls"
proof (induction ks arbitrary: t ls)
  case Nil
  then show ?case by (cases ls) (simp_all add: hasPath_Cons)
next
  case (Cons c cs)
  show ?case
  proof (cases ls)
    case Nil
    then show ?thesis by simp
  next
    case ls: (Cons l ls')
    show ?thesis
    proof (cases "map_of (node_next t) c")
      case None
      then show ?thesis using Cons.prems ls
        by (auto simp add: hasPath_Cons map_of_snoc simp del: map_of_append split: option.splits)
    next
      case (Some child)
      then show ?thesis using Cons.prems ls Cons.IH[of child ls']
        by (auto simp add: hasPath_Cons update_conv' split: option.splits)
    qed
  qed
qed

lemma hasPath_insertEntries_keeps: "hasPath t ls \<Longrightarrow> hasPath (insertEntries es t) ls"
proof (induction es arbitrary: t)
  case Nil
  then show ?case by simp
next
  case (Cons e es)
  obtain k v where e: "e = (k, v)" by (cases e)
  from Cons.prems have "hasPath (insertPath (splitSlash k) v t) ls"
    by (rule hasPath_insertPath_keeps)
  from Cons.IH[OF this] show ?case using e by simp
qed

lemma hasPath_insertEntries_key: "(k, v) \<in> set es \<Longrightarrow> hasPath (insertEntries es t) (splitSlash k)"
proof (induction es arbitrary: t)
  case Nil
  then show ?case by simp
next
  case (Cons e es)
  obtain k' v' where e: "e = (k', v')" by (cases e)
  show ?case
  proof (cases "(k, v) \<in> set es")
    case True
    from Cons.IH[OF this] show ?thesis using e by simp
  next
    case False
    with Cons.prems e have "k' = k" by auto
    then show ?thesis
      using e hasPath_insertEntries_keeps[OF hasPath_insertPath_self, of es "splitSlash k" v' t] by simp
  qed
qed

lemma splitSlash_eq_iff: "splitSlash a = splitSlash b \<longleftrightarrow> a = b"
proof
  assume "splitSlash a = splitSlash b"
  then show "a = b" by (rule splitSlash_inj)
next
  assume "a = b"
  then show "splitSlash a = splitSlash b" by simp
qed

lemma map_of_split_keys: "map_of (map (\<lambda>(k, v). (splitSlash k, v)) es) (splitSlash k) = map_of es k"
proof (induction es)
  case Nil
  show ?case by simp
next
  case (Cons e es)
  obtain k' v' where e: "e = (k', v')" by (cases e)
  show ?case using Cons.IH by (simp add: e splitSlash_eq_iff)
qed



lemma rev_split_keys:
  "rev (map (\<lambda>(k, v). (splitSlash k, v)) es) = map (\<lambda>(k, v). (splitSlash k, v)) (rev es)"
  by (simp add: rev_map)

lemma valueAt_insertEntries:
  "valueAt (insertEntries es t) ls =
     (case map_of (map (\<lambda>(k, v). (splitSlash k, v)) (rev es)) ls of
        Some v \<Rightarrow> Some v
      | None \<Rightarrow> valueAt t ls)"
proof (induction es arbitrary: t)
  case Nil
  then show ?case by simp
next
  case (Cons e es)
  obtain k v where e: "e = (k, v)" by (cases e)
  show ?case
  proof (cases "map_of (map (\<lambda>(k, v). (splitSlash k, v)) (rev es)) ls")
    case None
    then show ?thesis
      by (simp add: e Cons.IH valueAt_insertPath map_add_def)
  next
    case (Some w)
    then show ?thesis
      by (simp add: e Cons.IH map_add_def)
  qed
qed

section \<open>Lookups\<close>

lemma getPrefix_SomeD:
  assumes "getPrefixPathAndReplacePathWithPath ctx p = Some (q, v)"
  obtains n comps where "walk (splitSlash p) (completionPrefixMap ctx) [] = (n, comps)"
    and "node_value n = Some v" and "v \<noteq> []" and "q = joinSlash comps"
proof -
  obtain n comps where w: "walk (splitSlash p) (completionPrefixMap ctx) [] = (n, comps)"
    by (cases "walk (splitSlash p) (completionPrefixMap ctx) []")
  with assms have "node_value n = Some v \<and> v \<noteq> [] \<and> q = joinSlash comps"
    by (auto simp: getPrefixPathAndReplacePathWithPath_def split: option.splits if_splits)
  with w that show ?thesis by blast
qed

lemma getPrefix_exact:
  assumes "nodeAt (completionPrefixMap ctx) (splitSlash k) = Some n"
    and "node_value n = Some v" and "v \<noteq> []"
  shows "getPrefixPathAndReplacePathWithPath ctx k = Some (k, v)"
proof -
  have "walk (splitSlash k @ []) (completionPrefixMap ctx) [] = walk [] n ([] @ splitSlash k)"
    using assms(1) by (rule walk_follow)
  then have "walk (splitSlash k) (completionPrefixMap ctx) [] = (n, splitSlash k)" by simp
  then show ?thesis
    using assms(2,3) by (simp add: getPrefixPathAndReplacePathWithPath_def joinSlash_splitSlash)
qed

lemma hasPath_nodeAt: "hasPath t ks \<Longrightarrow> \<exists>n. nodeAt t ks = Some n \<and> node_value n = valueAt t ks"
  by (auto simp: hasPath_def valueAt_def)

lemma map_of_rev_mem: "map_of (rev es) k = Some v \<Longrightarrow> (k, v) \<in> set es"
  using map_of_SomeD[of "rev es" k v] by simp

lemma getPrefix_key:
  assumes "map_of (rev es) k = Some v" and "v \<noteq> []"
    and "completionPrefixMap ctx = insertEntries es t"
  shows "getPrefixPathAndReplacePathWithPath ctx k = Some (k, v)"
proof -
  have "(k, v) \<in> set es" using assms(1) by (rule map_of_rev_mem)
  then have "hasPath (insertEntries es t) (splitSlash k)" by (rule hasPath_insertEntries_key)
  then obtain n where n: "nodeAt (insertEntries es t) (splitSlash k) = Some n"
    "node_value n = valueAt (insertEntries es t) (splitSlash k)"
    using hasPath_nodeAt by blast
  have "valueAt (insertEntries es t) (splitSlash k) = Some v"
    using assms(1) by (simp add: valueAt_insertEntries map_of_split_keys)
  with n assms show ?thesis by (simp add: getPrefix_exact)
qed

lemma getPrefix_exactD:
  assumes m: "getPrefixPathAndReplacePathWithPath ctx k = Some (k, v)"
    and root: "node_value (completionPrefixMap ctx) = None"
  shows "\<exists>n. nodeAt (completionPrefixMap ctx) (splitSlash k) = Some n \<and> node_value n = Some v \<and> v \<noteq> []"
proof -
  from m obtain n comps where w: "walk (splitSlash k) (completionPrefixMap ctx) [] = (n, comps)"
    and v: "node_value n = Some v" "v \<noteq> []" and k: "k = joinSlash comps"
    by (rule getPrefix_SomeD)
  from walk_reaches[OF w] obtain ks where ks: "comps = [] @ ks"
    "nodeAt (completionPrefixMap ctx) ks = Some n" "set ks \<subseteq> set (splitSlash k)" by blast
  have "comps \<noteq> []"
  proof
    assume "comps = []"
    with ks have "n = completionPrefixMap ctx" by simp
    with v root show False by simp
  qed
  moreover have "\<forall>c\<in>set comps. CHR ''/'' \<notin> set c"
    using ks splitSlash_no_slash by auto
  ultimately have "splitSlash (joinSlash comps) = comps" by (rule splitSlash_joinSlash)
  with k ks v show ?thesis by simp
qed

section \<open>Replacement text and reloads\<close>



lemma update_parsed:
  assumes "existsSync e (mappingPath ctx)" "readFileSync e (mappingPath ctx) = Some text" "JSON_parse e text = Some doc"
  shows "updateCompletionPrefixMap e ctx = (None, ctx\<lparr>completionPrefixMap := insertEntries doc (completionPrefixMap ctx)\<rparr>)"
  using assms by (simp add: updateCompletionPrefixMap_def mappingPath_def)

lemma getPrefix_kept:
  assumes m: "getPrefixPathAndReplacePathWithPath ctx k = Some (k, v)"
    and root: "node_value (completionPrefixMap ctx) = None"
    and absent: "k \<notin> fst ` set doc"
    and ctx': "completionPrefixMap ctx' = insertEntries doc (completionPrefixMap ctx)"
  shows "getPrefixPathAndReplacePathWithPath ctx' k = Some (k, v)"
proof -
  from getPrefix_exactD[OF m root] obtain n where
    n: "nodeAt (completionPrefixMap ctx) (splitSlash k) = Some n" "node_value n = Some v" "v \<noteq> []"
    by blast
  then have old: "valueAt (completionPrefixMap ctx) (splitSlash k) = Some v"
    by (simp add: valueAt_def)
  have "hasPath (completionPrefixMap ctx) (splitSlash k)" using n by (simp add: hasPath_def)
  then have "hasPath (insertEntries doc (completionPrefixMap ctx)) (splitSlash k)"
    by (rule hasPath_insertEntries_keeps)
  then obtain n' where n': "nodeAt (insertEntries doc (completionPrefixMap ctx)) (splitSlash k) = Some n'"
    "node_value n' = valueAt (insertEntries doc (completionPrefixMap ctx)) (splitSlash k)"
    using hasPath_nodeAt by blast
  have "map_of (rev doc) k = None"
    using absent by (simp add: map_of_eq_None_iff)
  then have "valueAt (insertEntries doc (completionPrefixMap ctx)) (splitSlash k) = Some v"
    using old by (simp add: valueAt_insertEntries map_of_split_keys)
  with n' n(3) ctx' show ?thesis by (simp add: getPrefix_exact)
qed


section \<open>Timers and traces\<close>

lemma timerFirings_append: "timerFirings (xs @ ys) = timerFirings xs @ timerFirings ys"
  by (induction xs rule: timerFirings.induct) auto

lemma reloadCalls_append: "reloadCalls (xs @ ys) = reloadCalls xs + reloadCalls ys"
  by (induction xs rule: reloadCalls.induct) auto

lemma handle_effect:
  "\<exists>xs. trace (snd (handleConfigFilesChanged e pol uri s)) = trace s @ xs
      \<and> timerFirings xs = [] \<and> reloadCalls xs \<le> 1
      \<and> timers (snd (handleConfigFilesChanged e pol uri s)) = timers s
      \<and> awaiting (snd (handleConfigFilesChanged e pol uri s)) = awaiting s"
proof (cases "stat_size e uri")
  case None
  then show ?thesis by (simp add: handleConfigFilesChanged_def)
next
  case (Some sz)
  show ?thesis
  proof (cases "sz \<le> 0")
    case True
    with Some show ?thesis by (simp add: handleConfigFilesChanged_def)
  next
    case False
    obtain err ctx where u: "updateCompletionPrefixMap e (clangdContext s) = (err, ctx)"
      by (cases "updateCompletionPrefixMap e (clangdContext s)")
    consider "pol = ''restart''" | "pol \<noteq> ''restart''" "pol = ''ignore''"
      | "pol \<noteq> ''restart''" "pol \<noteq> ''ignore''" by blast
    then show ?thesis
    proof cases
      case 1
      with Some False have "snd (handleConfigFilesChanged e pol uri s) = s\<lparr>trace := trace s @ [PolicyDispatch pol]\<rparr>"
        by (simp add: handleConfigFilesChanged_def)
      then show ?thesis by simp
    next
      case 2
      with Some False have "snd (handleConfigFilesChanged e pol uri s) = s\<lparr>trace := trace s @ [PolicyDispatch pol]\<rparr>"
        by (simp add: handleConfigFilesChanged_def)
      then show ?thesis by simp
    next
      case 3
      with Some False u have "snd (handleConfigFilesChanged e pol uri s)
          = s\<lparr>clangdContext := ctx, trace := (trace s @ [PolicyDispatch pol]) @ [ReloadCalled]\<rparr>"
        by (simp add: handleConfigFilesChanged_def Let_def)
      then have "trace (snd (handleConfigFilesChanged e pol uri s)) = trace s @ [PolicyDispatch pol, ReloadCalled]"
        and "timers (snd (handleConfigFilesChanged e pol uri s)) = timers s"
        and "awaiting (snd (handleConfigFilesChanged e pol uri s)) = awaiting s"
        by simp_all
      then show ?thesis by simp
    qed
  qed
qed

lemma callback_effect:
  "\<exists>xs. trace (timerCallback e pol uri s) = trace s @ xs
      \<and> timerFirings xs = [] \<and> reloadCalls xs \<le> 1
      \<and> timers (timerCallback e pol uri s) = timers s
      \<and> awaiting (timerCallback e pol uri s) = awaiting s"
proof -
  obtain err s' where h: "handleConfigFilesChanged e pol uri s = (err, s')"
    by (cases "handleConfigFilesChanged e pol uri s")
  from handle_effect[of e pol uri s] h obtain xs where
    xs: "trace s' = trace s @ xs" "timerFirings xs = []" "reloadCalls xs \<le> 1"
      "timers s' = timers s" "awaiting s' = awaiting s"
    by auto
  have "trace (timerCallback e pol uri s) = trace s' \<and> timers (timerCallback e pol uri s) = timers s'
      \<and> awaiting (timerCallback e pol uri s) = awaiting s'"
    using h by (cases err) (simp_all add: timerCallback_def)
  with xs show ?thesis by simp
qed

lemma elapse_not_due:
  assumes "\<forall>x\<in>set (timers s). clock s + d < fst (snd x)"
  shows "elapse d s = s\<lparr>clock := clock s + d\<rparr>"
proof -
  have "filter (\<lambda>(h, due, uri). due \<le> clock s + d) (timers s) = []"
    using assms by (auto simp: filter_empty_conv)
  then show ?thesis by (simp add: elapse_def)
qed

lemma debounced_single:
  assumes "timers s = [] \<or> (\<exists>due u. timers s = [(h, due, u)] \<and> debounceTimer s = Some h)"
  shows "debouncedHandleConfigFilesChanged uri s =
           s\<lparr>debounceTimer := Some (fresh s), timers := [(fresh s, clock s + 2000, uri)],
             fresh := Suc (fresh s)\<rparr>"
  using assms
  by (cases "debounceTimer s") (auto simp: debouncedHandleConfigFilesChanged_def dispose_def)

lemma burst_armed:
  assumes "timers s = [(h, clock s + 2000, u)]" and "debounceTimer s = Some h"
    and "\<forall>x\<in>set ns. fst x < 2000"
  shows "\<exists>h'. timers (burst ns s) = [(h', clock (burst ns s) + 2000, (if ns = [] then u else snd (last ns)))]
       \<and> debounceTimer (burst ns s) = Some h'
       \<and> trace (burst ns s) = trace s
       \<and> awaiting (burst ns s) = awaiting s
       \<and> clock (burst ns s) = clock s + sum_list (map fst ns)"
  using assms
proof (induction ns arbitrary: s h u)
  case Nil
  then show ?case by simp
next
  case (Cons n ns)
  obtain gap uri where n: "n = (gap, uri)" by (cases n)
  from Cons.prems n have gap: "gap < 2000" by simp
  let ?s1 = "s\<lparr>clock := clock s + gap\<rparr>"
  have e: "elapse gap s = ?s1"
    by (rule elapse_not_due) (use Cons.prems gap in simp)
  let ?s2 = "?s1\<lparr>debounceTimer := Some (fresh ?s1), timers := [(fresh ?s1, clock ?s1 + 2000, uri)],
             fresh := Suc (fresh ?s1)\<rparr>"
  have d: "debouncedHandleConfigFilesChanged uri ?s1 = ?s2"
    by (rule debounced_single[where h = h]) (use Cons.prems in simp)
  have b: "burst (n # ns) s = burst ns ?s2"
    using n e d by simp
  have "\<exists>h'. timers (burst ns ?s2) = [(h', clock (burst ns ?s2) + 2000, (if ns = [] then uri else snd (last ns)))]
       \<and> debounceTimer (burst ns ?s2) = Some h'
       \<and> trace (burst ns ?s2) = trace ?s2
       \<and> awaiting (burst ns ?s2) = awaiting ?s2
       \<and> clock (burst ns ?s2) = clock ?s2 + sum_list (map fst ns)"
    by (rule Cons.IH[where h = "fresh s"]) (use Cons.prems in simp_all)
  then show ?case unfolding b using n by auto
qed

lemma elapse_fires_one:
  assumes t: "timers s = [(h, due, u)]" and due: "due \<le> clock s + d"
  shows "elapse d s = s\<lparr>timers := [], clock := clock s + d, trace := trace s @ [TimerFired due u],
                        awaiting := awaiting s @ [u]\<rparr>"
  using t due by (simp add: elapse_def dispose_def)

lemma debounce_coalesces_when_quiescent:
  assumes st: "timers s = [] \<or> (\<exists>h due u. timers s = [(h, due, u)] \<and> debounceTimer s = Some h
                                   \<and> clock s + fst (hd ns) < due)"
    and quiescent: "awaiting s = []"
    and ne: "ns \<noteq> []"
    and close: "\<forall>x\<in>set (tl ns). fst x < 2000"
    and quiet: "2000 \<le> quiet"
  shows "trace (burst ns s) = trace s
       \<and> trace (elapse quiet (burst ns s))
           = trace s @ [TimerFired (clock s + sum_list (map fst ns) + 2000) (snd (last ns))]
       \<and> timers (elapse quiet (burst ns s)) = []
       \<and> timerFirings (trace (statResolved e pol (elapse quiet (burst ns s))))
           = timerFirings (trace s) @ [(clock s + sum_list (map fst ns) + 2000, snd (last ns))]
       \<and> reloadCalls (trace (statResolved e pol (elapse quiet (burst ns s)))) \<le> reloadCalls (trace s) + 1"
proof -
  obtain gap uri ns' where ns: "ns = (gap, uri) # ns'" using ne by (cases ns) auto
  from st ns obtain h where h: "timers s = [] \<or> (\<exists>due u. timers s = [(h, due, u)] \<and> debounceTimer s = Some h)"
    and notdue: "\<forall>x\<in>set (timers s). clock s + gap < fst (snd x)"
    by auto
  let ?s1 = "s\<lparr>clock := clock s + gap\<rparr>"
  have e: "elapse gap s = ?s1"
    using notdue by (rule elapse_not_due)
  let ?s2 = "?s1\<lparr>debounceTimer := Some (fresh ?s1), timers := [(fresh ?s1, clock ?s1 + 2000, uri)],
             fresh := Suc (fresh ?s1)\<rparr>"
  have d: "debouncedHandleConfigFilesChanged uri ?s1 = ?s2"
    by (rule debounced_single[where h = h]) (use h in simp)
  have b: "burst ns s = burst ns' ?s2"
    using ns e d by simp
  let ?s3 = "burst ns' ?s2"
  have "\<exists>h'. timers ?s3 = [(h', clock ?s3 + 2000, (if ns' = [] then uri else snd (last ns')))]
       \<and> debounceTimer ?s3 = Some h'
       \<and> trace ?s3 = trace ?s2
       \<and> awaiting ?s3 = awaiting ?s2
       \<and> clock ?s3 = clock ?s2 + sum_list (map fst ns')"
    by (rule burst_armed[where h = "fresh s"]) (use close ns in simp_all)
  then obtain h' where s3: "timers ?s3 = [(h', clock ?s3 + 2000, snd (last ns))]"
    "trace ?s3 = trace s" "clock ?s3 = clock s + sum_list (map fst ns)" "awaiting ?s3 = []"
    using ns quiescent by auto
  let ?t = "clock s + sum_list (map fst ns) + 2000"
  let ?s4 = "?s3\<lparr>timers := [], clock := clock ?s3 + quiet,
                 trace := trace ?s3 @ [TimerFired (clock ?s3 + 2000) (snd (last ns))],
                 awaiting := awaiting ?s3 @ [snd (last ns)]\<rparr>"
  have f: "elapse quiet ?s3 = ?s4"
    by (rule elapse_fires_one[OF s3(1)]) (use quiet in simp)
  have r: "statResolved e pol ?s4 = timerCallback e pol (snd (last ns)) (?s4\<lparr>awaiting := []\<rparr>)"
    using s3(4) by (simp add: statResolved_def)
  from callback_effect[of e pol "snd (last ns)" "?s4\<lparr>awaiting := []\<rparr>"] obtain xs where
    xs: "trace (timerCallback e pol (snd (last ns)) (?s4\<lparr>awaiting := []\<rparr>)) = trace ?s4 @ xs"
      "timerFirings xs = []" "reloadCalls xs \<le> 1"
    by auto
  show ?thesis
    unfolding b f r using xs s3(2,3) by (simp add: timerFirings_append reloadCalls_append)
qed

section \<open>Watchers\<close>

lemma sameWatch_refl [simp]: "sameWatch s s"
  by (simp add: sameWatch_def)

lemma sameWatch_trans: "sameWatch s s' \<Longrightarrow> sameWatch s' s'' \<Longrightarrow> sameWatch s s''"
  by (simp add: sameWatch_def)

lemma update_path: "completionPrefixMapPath (snd (updateCompletionPrefixMap e ctx)) = completionPrefixMapPath ctx"
  by (simp add: updateCompletionPrefixMap_def Let_def split: option.splits)

lemma debounced_sameWatch: "sameWatch s (debouncedHandleConfigFilesChanged uri s)"
  by (simp add: sameWatch_def debouncedHandleConfigFilesChanged_def Let_def split: option.splits)

lemma handle_sameWatch: "sameWatch s (snd (handleConfigFilesChanged e pol uri s))"
proof -
  obtain err ctx where u: "updateCompletionPrefixMap e (clangdContext s) = (err, ctx)"
    by (cases "updateCompletionPrefixMap e (clangdContext s)")
  then have "completionPrefixMapPath ctx = completionPrefixMapPath (clangdContext s)"
    using update_path[of e "clangdContext s"] by simp
  with u show ?thesis
    by (simp add: sameWatch_def handleConfigFilesChanged_def Let_def split: option.splits)
qed

lemma callback_sameWatch: "sameWatch s (timerCallback e pol uri s)"
proof -
  obtain err s' where h: "handleConfigFilesChanged e pol uri s = (err, s')"
    by (cases "handleConfigFilesChanged e pol uri s")
  with handle_sameWatch[of s e pol uri] have "sameWatch s s'" by simp
  with h show ?thesis by (cases err) (simp_all add: timerCallback_def sameWatch_def)
qed

lemma fireAll_sameWatch: "sameWatch s (fireAll ts s)"
proof (induction ts arbitrary: s)
  case Nil
  show ?case by simp
next
  case (Cons t ts)
  obtain h due uri where t: "t = (h, due, uri)" by (cases t)
  let ?s1 = "s\<lparr>timers := dispose h (timers s), clock := due,
               trace := trace s @ [TimerFired due uri], awaiting := awaiting s @ [uri]\<rparr>"
  have "sameWatch s ?s1" by (simp add: sameWatch_def)
  moreover have "sameWatch ?s1 (fireAll ts ?s1)" by (rule Cons.IH)
  ultimately show ?case using t by (auto intro: sameWatch_trans)
qed

lemma elapse_sameWatch: "sameWatch s (elapse d s)"
  using fireAll_sameWatch[of s "filter (\<lambda>(h, due, uri). due \<le> clock s + d) (timers s)"]
  by (simp add: elapse_def sameWatch_def)

lemma statResolved_sameWatch: "sameWatch s (statResolved e pol s)"
proof (cases "awaiting s")
  case Nil
  then show ?thesis by (simp add: statResolved_def)
next
  case (Cons uri rest)
  have "sameWatch s (s\<lparr>awaiting := rest\<rparr>)" by (simp add: sameWatch_def)
  moreover have "sameWatch (s\<lparr>awaiting := rest\<rparr>) (timerCallback e pol uri (s\<lparr>awaiting := rest\<rparr>))"
    by (rule callback_sameWatch)
  ultimately show ?thesis using Cons by (auto simp: statResolved_def intro: sameWatch_trans)
qed

lemma fold_debounced_sameWatch: "sameWatch s (fold (\<lambda>w. debouncedHandleConfigFilesChanged uri) ws s)"
proof (induction ws arbitrary: s)
  case Nil
  show ?case by simp
next
  case (Cons w ws)
  show ?case
    using debounced_sameWatch[of s uri] Cons.IH[of "debouncedHandleConfigFilesChanged uri s"]
    by (auto intro: sameWatch_trans)
qed

lemma notification_sameWatch: "sameWatch s (fileSystemNotification k uri s)"
  by (simp add: fileSystemNotification_def fold_debounced_sameWatch)

lemma create_watchers:
  assumes "oneWatcher s"
  shows "watchers (createFileSystemWatcher e s) =
           (if existsSync e (mappingPath (clangdContext s))
            then [(fresh s, mappingPath (clangdContext s), [Changed, Created])] else [])"
    and "existsSync e (mappingPath (clangdContext s)) \<Longrightarrow> fileWatcher (createFileSystemWatcher e s) = Some (fresh s)"
    and "completionPrefixMapPath (clangdContext (createFileSystemWatcher e s)) = completionPrefixMapPath (clangdContext s)"
  using assms
  by (cases "fileWatcher s"; auto simp: oneWatcher_def createFileSystemWatcher_def dispose_def Let_def)+

lemma create_oneWatcher: "oneWatcher s \<Longrightarrow> oneWatcher (createFileSystemWatcher e s)"
  using create_watchers[of s e] by (auto simp: oneWatcher_def)

lemma sameWatch_oneWatcher: "sameWatch s s' \<Longrightarrow> oneWatcher s \<Longrightarrow> oneWatcher s'"
  by (simp add: sameWatch_def oneWatcher_def)

lemma step_oneWatcher: "oneWatcher s \<Longrightarrow> oneWatcher (step disk pol ev s)"
  by (cases ev)
    (auto intro: create_oneWatcher sameWatch_oneWatcher notification_sameWatch elapse_sameWatch
       statResolved_sameWatch)

lemma step_path: "oneWatcher s \<Longrightarrow>
  completionPrefixMapPath (clangdContext (step disk pol ev s)) = completionPrefixMapPath (clangdContext s)"
  using notification_sameWatch[of s] elapse_sameWatch[of s] statResolved_sameWatch[of s]
  by (cases ev) (auto simp: create_watchers sameWatch_def)

lemma run_oneWatcher: "oneWatcher s \<Longrightarrow>
  oneWatcher (run disk pol evs s)
  \<and> completionPrefixMapPath (clangdContext (run disk pol evs s)) = completionPrefixMapPath (clangdContext s)"
proof (induction evs arbitrary: s)
  case Nil
  then show ?case by simp
next
  case (Cons ev evs)
  from Cons.prems have "oneWatcher (step disk pol ev s)" by (rule step_oneWatcher)
  from Cons.IH[OF this] step_path[OF Cons.prems, of disk pol ev] show ?case by simp
qed

lemma startup_oneWatcher: "oneWatcher (startup disk ctx)
   \<and> completionPrefixMapPath (clangdContext (startup disk ctx)) = completionPrefixMapPath ctx"
  by (simp add: startup_def oneWatcher_def createFileSystemWatcher_def Let_def)

section \<open>Document links\<close>

text \<open>
  \<^verbatim>\<open>provideDocumentLinks\<close> rewrites the links one by one: when it returns, it
  returns as many links as it was given.
\<close>

lemma mapLinks_keeps_every_item:
  "mapLinks e ctx items = Inr items' \<Longrightarrow> length items' = length items"
proof (induction items arbitrary: items')
  case Nil
  then show ?case by simp
next
  case (Cons i items)
  obtain rng target where i: "i = DocumentLink rng target" by (cases i)
  from Cons.prems i obtain rest where "mapLinks e ctx items = Inr rest" "length items' = Suc (length rest)"
    by (auto split: option.splits sum.splits)
  with Cons.IH show ?case by simp
qed

section \<open>The claims\<close>

subsection \<open>C1: resolve\<close>





text \<open>
  What the statement of C1 above leaves out. A dollar sign in the replacement value is
  read by \<^verbatim>\<open>String.prototype.replace\<close> as a pattern: the candidate is then not the
  plain substitution. A candidate that begins with two slashes (the replacement value
  \<^verbatim>\<open>/\<close>) exists on disk, and \<^verbatim>\<open>Uri.with\<close> throws for it. A candidate that does
  not begin with a slash (the replacement value \<^verbatim>\<open>home\<close>) gets one in front.
\<close>

lemma replace_expands_dollar:
  "replace ''/sandbox/src/a.h'' ''/sandbox/src'' ''/home/$$dev'' = ''/home/$dev/a.h''"
  by (simp add: replace_def)

lemma resolve_candidate_with_two_slashes:
  "resolve (sampleDisk [(''/tmp/v/sandbox/tmp/v/src/a.h'', 10), (''//tmp/v/src/a.h'', 10)] [] [] None)
     \<lparr>completionPrefixMap = insertEntries [(''/tmp/v/sandbox'', ''/'')] newTrieNode,
        completionPrefixMapPath = ''/store''\<rparr>
     (fileUri ''/tmp/v/sandbox/tmp/v/src/a.h'') = Inl UriError"
  by (simp add: resolve_def sampleDisk_def fileUri_def newTrieNode_def replace_def uriWith_def
      referenceResolution_def validateUri_def getPrefixPathAndReplacePathWithPath_def)

lemma resolve_relative_candidate:
  "resolve (sampleDisk [(''/sandbox/a.h'', 10), (''home/a.h'', 10)] [] [] None)
     \<lparr>completionPrefixMap = insertEntries [(''/sandbox'', ''home'')] newTrieNode,
        completionPrefixMapPath = ''/store''\<rparr>
     (fileUri ''/sandbox/a.h'') = Inr (fileUri ''/home/a.h'')"
  by (simp add: resolve_def sampleDisk_def fileUri_def newTrieNode_def replace_def uriWith_def
      referenceResolution_def validateUri_def getPrefixPathAndReplacePathWithPath_def)

subsection \<open>C2: the walk of the lookup\<close>

text \<open>
  C2 says that the first segment with no child ends the walk, so that the matched
  prefix is a leading segment sequence of the query. The loop has no \<^verbatim>\<open>break\<close>:
  with the one key \<^verbatim>\<open>/a/b\<close>, the query \<^verbatim>\<open>/a/x/b\<close> passes over \<^verbatim>\<open>x\<close>,
  consumes \<^verbatim>\<open>b\<close> and returns \<^verbatim>\<open>/a/b\<close>, which is not a leading segment
  sequence of the query.
\<close>

theorem walk_passes_over_missing_segment:
  "getPrefixPathAndReplacePathWithPath
     \<lparr>completionPrefixMap = insertEntries [(''/a/b'', ''/R'')] newTrieNode,
        completionPrefixMapPath = ''/store''\<rparr>
     ''/a/x/b'' = Some (''/a/b'', ''/R'')
   \<and> \<not> prefix (splitSlash ''/a/b'') (splitSlash ''/a/x/b'')"
  by (simp add: getPrefixPathAndReplacePathWithPath_def newTrieNode_def)

subsection \<open>C3: reload with a parseable document\<close>

text \<open>
  C3, as the code has it. A reload with an existing, parseable document inserts the
  entries of the document into the trie that is there; no new trie is made. After it,
  every key of the document with a non-empty value matches itself with the value of
  its last entry, and a key that matched itself before and is not in the document
  still matches itself with its old value (the root carries no value).
\<close>

theorem reload_merges_into_trie:
  assumes "existsSync e (mappingPath ctx)" "readFileSync e (mappingPath ctx) = Some text" "JSON_parse e text = Some doc"
  shows "updateCompletionPrefixMap e ctx =
           (None, ctx\<lparr>completionPrefixMap := insertEntries doc (completionPrefixMap ctx)\<rparr>)
       \<and> (\<forall>k v. map_of (rev doc) k = Some v \<and> v \<noteq> [] \<longrightarrow>
             getPrefixPathAndReplacePathWithPath (snd (updateCompletionPrefixMap e ctx)) k = Some (k, v))
       \<and> (\<forall>k v. node_value (completionPrefixMap ctx) = None \<and> k \<notin> fst ` set doc
                 \<and> getPrefixPathAndReplacePathWithPath ctx k = Some (k, v) \<longrightarrow>
             getPrefixPathAndReplacePathWithPath (snd (updateCompletionPrefixMap e ctx)) k = Some (k, v))"
proof -
  let ?ctx' = "ctx\<lparr>completionPrefixMap := insertEntries doc (completionPrefixMap ctx)\<rparr>"
  have u: "updateCompletionPrefixMap e ctx = (None, ?ctx')"
    using assms by (rule update_parsed)
  have t: "completionPrefixMap ?ctx' = insertEntries doc (completionPrefixMap ctx)" by simp
  have a: "getPrefixPathAndReplacePathWithPath ?ctx' k = Some (k, v)"
    if "map_of (rev doc) k = Some v" "v \<noteq> []" for k v
    using that t by (rule getPrefix_key)
  have b: "getPrefixPathAndReplacePathWithPath ?ctx' k = Some (k, v)"
    if "node_value (completionPrefixMap ctx) = None" "k \<notin> fst ` set doc"
       "getPrefixPathAndReplacePathWithPath ctx k = Some (k, v)" for k v
    using that(3,1,2) t by (rule getPrefix_kept)
  show ?thesis using u a b by simp
qed

text \<open>
  C3 at an example: the old key and the new key both match after the reload.
\<close>

theorem reload_merges_into_trie_witness:
  "updateCompletionPrefixMap
     (sampleDisk [(''/store/completion_prefix_map.json'', 30)] [] ''new'' (Some [(''/new'', ''/y'')]))
     \<lparr>completionPrefixMap = insertEntries [(''/old'', ''/x'')] newTrieNode, completionPrefixMapPath = ''/store''\<rparr>
   = (None, \<lparr>completionPrefixMap = insertEntries [(''/old'', ''/x''), (''/new'', ''/y'')] newTrieNode,
              completionPrefixMapPath = ''/store''\<rparr>)
   \<and> getPrefixPathAndReplacePathWithPath
       (snd (updateCompletionPrefixMap
          (sampleDisk [(''/store/completion_prefix_map.json'', 30)] [] ''new'' (Some [(''/new'', ''/y'')]))
          \<lparr>completionPrefixMap = insertEntries [(''/old'', ''/x'')] newTrieNode, completionPrefixMapPath = ''/store''\<rparr>))
       ''/new'' = Some (''/new'', ''/y'')
   \<and> getPrefixPathAndReplacePathWithPath
       (snd (updateCompletionPrefixMap
          (sampleDisk [(''/store/completion_prefix_map.json'', 30)] [] ''new'' (Some [(''/new'', ''/y'')]))
          \<lparr>completionPrefixMap = insertEntries [(''/old'', ''/x'')] newTrieNode, completionPrefixMapPath = ''/store''\<rparr>))
       ''/old'' = Some (''/old'', ''/x'')"
proof -
  let ?e = "sampleDisk [(''/store/completion_prefix_map.json'', 30)] [] ''new'' (Some [(''/new'', ''/y'')])"
  let ?ctx = "\<lparr>completionPrefixMap = insertEntries [(''/old'', ''/x'')] newTrieNode, completionPrefixMapPath = ''/store''\<rparr>"
  have a: "existsSync ?e (mappingPath ?ctx)" by (simp add: sampleDisk_def mappingPath_def)
  have b: "readFileSync ?e (mappingPath ?ctx) = Some ''new''" by (simp add: sampleDisk_def mappingPath_def)
  have c: "JSON_parse ?e ''new'' = Some [(''/new'', ''/y'')]" by (simp add: sampleDisk_def)
  note T = reload_merges_into_trie[OF a b c]
  from T have 1: "updateCompletionPrefixMap ?e ?ctx
      = (None, \<lparr>completionPrefixMap = insertEntries [(''/old'', ''/x''), (''/new'', ''/y'')] newTrieNode,
              completionPrefixMapPath = ''/store''\<rparr>)" by simp
  from T have "map_of (rev [(''/new'', ''/y'')]) ''/new'' = Some ''/y'' \<and> ''/y'' \<noteq> [] \<longrightarrow>
      getPrefixPathAndReplacePathWithPath (snd (updateCompletionPrefixMap ?e ?ctx)) ''/new'' = Some (''/new'', ''/y'')"
    by blast
  then have 2: "getPrefixPathAndReplacePathWithPath (snd (updateCompletionPrefixMap ?e ?ctx)) ''/new'' = Some (''/new'', ''/y'')"
    by simp
  from T have "node_value (completionPrefixMap ?ctx) = None \<and> ''/old'' \<notin> fst ` set [(''/new'', ''/y'')]
         \<and> getPrefixPathAndReplacePathWithPath ?ctx ''/old'' = Some (''/old'', ''/x'') \<longrightarrow>
      getPrefixPathAndReplacePathWithPath (snd (updateCompletionPrefixMap ?e ?ctx)) ''/old'' = Some (''/old'', ''/x'')"
    by blast
  moreover have "node_value (completionPrefixMap ?ctx) = None"
    by (simp add: newTrieNode_def)
  moreover have "getPrefixPathAndReplacePathWithPath ?ctx ''/old'' = Some (''/old'', ''/x'')"
    by (simp add: getPrefixPathAndReplacePathWithPath_def newTrieNode_def)
  ultimately have 3: "getPrefixPathAndReplacePathWithPath (snd (updateCompletionPrefixMap ?e ?ctx)) ''/old'' = Some (''/old'', ''/x'')"
    by simp
  from 1 2 3 show ?thesis by blast
qed

text \<open>
  C3 says that a key that was configured before the reload and is absent from the
  current document no longer matches any path. After a first load of \<^verbatim>\<open>/old\<close> and
  a reload with a document that has only \<^verbatim>\<open>/new\<close>, a path under \<^verbatim>\<open>/old\<close> still
  matches.
\<close>

theorem reload_keeps_old_key:
  "getPrefixPathAndReplacePathWithPath
     (snd (updateCompletionPrefixMap
        (sampleDisk [(''/store/completion_prefix_map.json'', 30)] [] ''new'' (Some [(''/new'', ''/y'')]))
        (snd (updateCompletionPrefixMap
           (sampleDisk [(''/store/completion_prefix_map.json'', 30)] [] ''old'' (Some [(''/old'', ''/x'')]))
           emptyContext))))
     ''/old/f.h'' = Some (''/old'', ''/x'')"
  by (simp add: updateCompletionPrefixMap_def sampleDisk_def emptyContext_def newTrieNode_def
      getPrefixPathAndReplacePathWithPath_def)

subsection \<open>C4: reload with no document or a malformed one\<close>

text \<open>
  C4. When the mapping file does not exist, the reload raises nothing and leaves the
  context, and so the trie and every later lookup, as it was. When the file exists and
  \<^verbatim>\<open>JSON.parse\<close> throws, the exception ends the reload before any insertion: the
  context is as it was.
\<close>

theorem reload_failure_keeps_trie:
  "(\<not> existsSync e (mappingPath ctx) \<longrightarrow> updateCompletionPrefixMap e ctx = (None, ctx))
   \<and> (existsSync e (mappingPath ctx) \<and> readFileSync e (mappingPath ctx) = Some text
        \<and> JSON_parse e text = None \<longrightarrow>
      updateCompletionPrefixMap e ctx = (Some SyntaxError, ctx))"
  by (simp add: updateCompletionPrefixMap_def mappingPath_def)

text \<open>
  C4 at a disk with no mapping file, and at one whose mapping file does not parse.
\<close>

theorem reload_failure_keeps_trie_witness:
  "updateCompletionPrefixMap (sampleDisk [] [] [] None) sandboxContext = (None, sandboxContext)
   \<and> updateCompletionPrefixMap
       (sampleDisk [(''/store/completion_prefix_map.json'', 7)] [] ''{oops'' None) sandboxContext
     = (Some SyntaxError, sandboxContext)"
  using reload_failure_keeps_trie[of "sampleDisk [] [] [] None" sandboxContext "[]"]
    reload_failure_keeps_trie
      [of "sampleDisk [(''/store/completion_prefix_map.json'', 7)] [] ''{oops'' None" sandboxContext "''{oops''"]
  by (simp add: sampleDisk_def sandboxContext_def mappingPath_def)

subsection \<open>C5: the debounce\<close>

text \<open>
  C5 says that a burst of notifications, each less than 2000 ms after the one before,
  gives exactly one \<^verbatim>\<open>TimerFired\<close> and at most one reload. The callback of a timeout
  sets \<^verbatim>\<open>this.debounceTimer = undefined\<close> after its \<^verbatim>\<open>await\<close>, whatever the field
  holds by then. Here a timeout armed by an earlier notification fires at 2000 and
  its callback waits for the size; the burst is the two notifications at 2000 and at
  2100. The first arms a timeout, the callback resumes and clears the field, so the
  second cancels nothing and arms another one: two timeouts fire, at 4000 and at 4100,
  and the reload is called for each. (\<open>debounce_coalesces_when_quiescent\<close> above is
  the case where no callback is suspended during the burst.)
\<close>

theorem debounce_race_fires_twice:
  "trace (run (\<lambda>t. sampleDisk [(''/store/completion_prefix_map.json'', 30)] [] ''doc'' (Some [(''/sandbox/src'', ''/home/dev/project'')]))
         ''prompt''
         [FileSystemNotification Changed ''/store/completion_prefix_map.json'',
          Elapse 2000,
          FileSystemNotification Changed ''/store/completion_prefix_map.json'',
          StatResolved,
          Elapse 100,
          FileSystemNotification Changed ''/store/completion_prefix_map.json'',
          Elapse 2000,
          StatResolved,
          StatResolved]
         (startup (\<lambda>t. sampleDisk [(''/store/completion_prefix_map.json'', 30)] [] ''doc'' (Some [(''/sandbox/src'', ''/home/dev/project'')])) emptyContext))
   = [TimerFired 2000 ''/store/completion_prefix_map.json'', PolicyDispatch ''prompt'', ReloadCalled,
      TimerFired 4000 ''/store/completion_prefix_map.json'',
      TimerFired 4100 ''/store/completion_prefix_map.json'',
      PolicyDispatch ''prompt'', ReloadCalled, PolicyDispatch ''prompt'', ReloadCalled]"
  by (simp add: startup_def createFileSystemWatcher_def mappingPath_def emptyContext_def
      sampleDisk_def elapse_def fileSystemNotification_def debouncedHandleConfigFilesChanged_def
      dispose_def statResolved_def timerCallback_def handleConfigFilesChanged_def
      updateCompletionPrefixMap_def Let_def)

subsection \<open>C6: an empty file\<close>

text \<open>
  C6. When the size of the file is at most 0, the handler returns at once: the state,
  and with it the trace, is as it was, so the policy is not looked at and the reload is
  not called.
\<close>

theorem empty_file_no_action:
  "stat_size e uri = Some sz \<Longrightarrow> sz \<le> 0 \<Longrightarrow> handleConfigFilesChanged e onConfigChanged uri s = (None, s)"
  by (simp add: handleConfigFilesChanged_def)

text \<open>
  C6 at a mapping file of size 0 under the policy \<^verbatim>\<open>prompt\<close>.
\<close>

theorem empty_file_no_action_witness:
  "handleConfigFilesChanged (sampleDisk [(''/store/completion_prefix_map.json'', 0)] [] [] (Some []))
     ''prompt'' ''/store/completion_prefix_map.json'' idleState = (None, idleState)"
  using empty_file_no_action
    [of "sampleDisk [(''/store/completion_prefix_map.json'', 0)] [] [] (Some [])"
        "''/store/completion_prefix_map.json''" 0 "''prompt''" idleState]
  by (simp add: sampleDisk_def)

subsection \<open>C7: a file that is gone\<close>

text \<open>
  C7, as the code has it. When the file no longer exists, \<^verbatim>\<open>stat\<close> rejects and
  nothing catches it: the handler ends with that exception, having done nothing (no
  policy dispatch, no reload), and the callback does not reach
  \<^verbatim>\<open>this.debounceTimer = undefined\<close>.
\<close>

theorem missing_file_raises:
  "stat_size e uri = None \<Longrightarrow>
     handleConfigFilesChanged e onConfigChanged uri s = (Some StatError, s)
     \<and> timerCallback e onConfigChanged uri s = s"
  by (simp add: handleConfigFilesChanged_def timerCallback_def)

text \<open>
  C7 at a disk with no mapping file.
\<close>

theorem missing_file_raises_witness:
  "handleConfigFilesChanged (sampleDisk [] [] [] None) ''prompt'' ''/store/completion_prefix_map.json'' idleState
     = (Some StatError, idleState)
   \<and> timerCallback (sampleDisk [] [] [] None) ''prompt'' ''/store/completion_prefix_map.json'' idleState = idleState"
  using missing_file_raises
    [of "sampleDisk [] [] [] None" "''/store/completion_prefix_map.json''" "''prompt''" idleState]
  by (simp add: sampleDisk_def)

text \<open>
  C7 says that the handler completes without raising, as for a file of size 0: for
  the missing file it ends with an exception, for the empty file it returns.
\<close>

theorem missing_file_unlike_empty_file:
  "handleConfigFilesChanged (sampleDisk [] [] [] None) ''prompt'' ''/store/completion_prefix_map.json'' idleState
     = (Some StatError, idleState)
   \<and> handleConfigFilesChanged (sampleDisk [(''/store/completion_prefix_map.json'', 0)] [] [] None)
       ''prompt'' ''/store/completion_prefix_map.json'' idleState
     = (None, idleState)"
  by (simp add: handleConfigFilesChanged_def sampleDisk_def)

subsection \<open>C8: the file system watcher\<close>

text \<open>
  C8, as the code has it. At startup and at every \<^verbatim>\<open>WorkspaceFoldersChanged\<close>, the
  watcher that is there is disposed, and a new one, listening for changes and
  creations of the mapping file, is created only when the mapping file exists at that
  moment; otherwise there is no watcher afterwards. At most one watcher is live at any
  time.
\<close>

theorem watcher_recreated:
  "watchers (startup disk ctx) =
     (if existsSync (disk 0) (mappingPath ctx) then [(0, mappingPath ctx, [Changed, Created])] else [])
   \<and> length (watchers (run disk pol evs (startup disk ctx))) \<le> 1
   \<and> watchers (step disk pol WorkspaceFoldersChanged (run disk pol evs (startup disk ctx))) =
       (if existsSync (disk (clock (run disk pol evs (startup disk ctx)))) (mappingPath ctx)
        then [(fresh (run disk pol evs (startup disk ctx)), mappingPath ctx, [Changed, Created])]
        else [])"
proof -
  let ?s = "run disk pol evs (startup disk ctx)"
  have s: "oneWatcher ?s" "completionPrefixMapPath (clangdContext ?s) = completionPrefixMapPath ctx"
    using run_oneWatcher[of "startup disk ctx" disk pol evs] startup_oneWatcher[of disk ctx] by simp_all
  then have p: "mappingPath (clangdContext ?s) = mappingPath ctx" by (simp add: mappingPath_def)
  have a: "watchers (startup disk ctx) =
     (if existsSync (disk 0) (mappingPath ctx) then [(0, mappingPath ctx, [Changed, Created])] else [])"
    by (simp add: startup_def createFileSystemWatcher_def Let_def)
  have b: "length (watchers ?s) \<le> 1" using s(1) by (auto simp: oneWatcher_def)
  have c: "watchers (step disk pol WorkspaceFoldersChanged ?s) =
       (if existsSync (disk (clock ?s)) (mappingPath ctx)
        then [(fresh ?s, mappingPath ctx, [Changed, Created])] else [])"
    using create_watchers(1)[OF s(1), of "disk (clock ?s)"] p by simp
  from a b c show ?thesis by blast
qed

text \<open>
  C8 says that a creation of the mapping file is detected also when the file did not
  exist when the subscription was made. With no file at startup there is no watcher;
  the file is created at 1000 ms, and the notification of it reaches no listener: no
  timeout is armed and nothing is reloaded.
\<close>

theorem no_watcher_when_file_absent:
  "watchers (startup (\<lambda>t. sampleDisk (if t < 1000 then [] else [(''/store/completion_prefix_map.json'', 30)]) [] ''doc'' (Some [(''/a'', ''/b'')])) emptyContext) = []
   \<and> run (\<lambda>t. sampleDisk (if t < 1000 then [] else [(''/store/completion_prefix_map.json'', 30)]) [] ''doc'' (Some [(''/a'', ''/b'')]))
        ''prompt''
        [Elapse 1000, FileSystemNotification Created ''/store/completion_prefix_map.json'', Elapse 5000, StatResolved]
        (startup (\<lambda>t. sampleDisk (if t < 1000 then [] else [(''/store/completion_prefix_map.json'', 30)]) [] ''doc'' (Some [(''/a'', ''/b'')])) emptyContext)
     = idleState\<lparr>clock := 6000\<rparr>"
  by (simp add: startup_def createFileSystemWatcher_def mappingPath_def emptyContext_def
      sampleDisk_def elapse_def fileSystemNotification_def statResolved_def idleState_def Let_def)

subsection \<open>C9: every item of a response\<close>

text \<open>
  C9 says that every location of a definition result is rewritten and none is
  dropped, as \<^verbatim>\<open>provideDocumentLinks\<close> does for links. \<^verbatim>\<open>provideDefinition\<close>
  looks at the first location only and returns it alone: of two locations the second
  is lost.
\<close>

theorem definition_returns_first_item_only:
  "provideDefinition (sampleDisk [(''/src/a.h'', 10), (''/src/b.h'', 10)] [] [] None) emptyContext
     (Definitions [Location (fileUri ''/src/a.h'') 1, Location (fileUri ''/src/b.h'') 2])
   = Inr (OneDefinition (Location (fileUri ''/src/a.h'') 1))"
  by (simp add: provideDefinition_def resolve_def getPrefixPathAndReplacePathWithPath_def
      sampleDisk_def emptyContext_def newTrieNode_def fileUri_def)

subsection \<open>C10: keys that are not prefixes of each other\<close>





end
